theory Spec2Isabelle
  imports Complex_Main "HOL-Library.Word"
begin

unbundle bit_operations_syntax

section \<open>Change-identity comparison: \<open>isDifferent\<close>\<close>

text \<open>
  \<^verbatim>\<open>isDifferent(a: any, b: any)\<close> only applies the strict inequality operator \<^verbatim>\<open>!==\<close> to its
  arguments, so a JavaScript value is modelled as far as strict equality can tell values
  apart: the primitive types with their payload, and every object (arrays and functions
  included) by its identity, an address.

  A number is an IEEE double: not-a-number, an infinity (the flag is the sign, \<open>True\<close>
  for negative), negative zero, or a finite value (\<open>Fin 0\<close> is positive zero).
\<close>

type_synonym addr = nat

datatype number = NaN | Inf bool | NegZero | Fin real

datatype any =
    AUndefined
  | ANull
  | ABoolean bool
  | ANumber number
  | AString string
  | ASymbol nat
  | AObject addr

text \<open>Number::equal of ECMAScript: NaN equals nothing, the two zeros are equal.\<close>

fun numberEqual :: "number \<Rightarrow> number \<Rightarrow> bool" where
  "numberEqual NaN y = False"
| "numberEqual x NaN = False"
| "numberEqual NegZero y = (y = NegZero \<or> y = Fin 0)"
| "numberEqual x NegZero = (x = NegZero \<or> x = Fin 0)"
| "numberEqual x y = (x = y)"

text \<open>The operator \<^verbatim>\<open>a === b\<close>: values of different types are never equal, numbers are
  compared by \<open>numberEqual\<close>, everything else by value (primitives) or identity (objects).\<close>

fun strictEquals :: "any \<Rightarrow> any \<Rightarrow> bool" where
  "strictEquals (ANumber x) (ANumber y) = numberEqual x y"
| "strictEquals a b = (a = b)"

text \<open>The operator \<^verbatim>\<open>a !== b\<close>.\<close>

definition strictNotEquals :: "any \<Rightarrow> any \<Rightarrow> bool" where
  "strictNotEquals a b = (\<not> strictEquals a b)"

text \<open>\<^verbatim>\<open>return !(a !== a && b !== b) && a !== b;\<close>\<close>

definition isDifferent :: "any \<Rightarrow> any \<Rightarrow> bool" where
  "isDifferent a b =
     (\<not> (strictNotEquals a a \<and> strictNotEquals b b) \<and> strictNotEquals a b)"

text \<open>The not-a-number sentinel as a value.\<close>

definition isNaN :: "any \<Rightarrow> bool" where
  "isNaN a = (a = ANumber NaN)"


section \<open>Constants of the view layout\<close>

text \<open>
  The functions read views through named constants that they import from the interface
  modules (\<^verbatim>\<open>interfaces/view\<close>, \<^verbatim>\<open>interfaces/container\<close>, \<^verbatim>\<open>interfaces/injector\<close>);
  those modules fix the numeric values. Every function below takes the constants it
  uses from a \<open>layout\<close>, so that what is proved holds for whatever values the interface
  modules give them: the header slots of a view, the length of a container, and the two
  constants of \<^verbatim>\<open>RelativeInjectorLocationFlags\<close>.
\<close>

record layout =
  HOST :: nat
  TVIEW :: nat
  PARENT :: nat
  T_HOST :: nat
  DECLARATION_VIEW :: nat
  LCONTAINER_LENGTH :: nat
  InjectorIndexMask :: "32 word"
  ViewOffsetShift :: nat


section \<open>Injector location codec\<close>

text \<open>
  A \<^verbatim>\<open>RelativeInjectorLocation\<close> is a number built and read with 32-bit bitwise operators,
  so it is a \<open>32 word\<close>; the number a bitwise operator returns is the signed reading of
  its 32 bits. \<^verbatim>\<open>>>\<close> is the sign-propagating shift and uses its count modulo 32.
\<close>

text \<open>\<^verbatim>\<open>return (parentLocation as any as number) & RelativeInjectorLocationFlags.InjectorIndexMask;\<close>\<close>

definition getParentInjectorIndex :: "layout \<Rightarrow> 32 word \<Rightarrow> int" where
  "getParentInjectorIndex K parentLocation = sint (parentLocation AND InjectorIndexMask K)"

text \<open>\<^verbatim>\<open>return (parentLocation as any as number) >> RelativeInjectorLocationFlags.ViewOffsetShift;\<close>\<close>

definition getParentInjectorViewOffset :: "layout \<Rightarrow> 32 word \<Rightarrow> int" where
  "getParentInjectorViewOffset K parentLocation =
     sint (signed_drop_bit (ViewOffsetShift K mod 32) parentLocation)"

text \<open>
  Modelled from the spec: the encoder of a location, which the sources at hand do not
  contain (they hold the two decoders only). The spec: ``pack {scope-index, view-offset}
  into one integer: low-order bits hold scope-index masked to a fixed bit width; the
  remaining high-order bits, right-shifted by a fixed constant, hold view-offset''.
\<close>

definition encodeLocation :: "layout \<Rightarrow> int \<Rightarrow> int \<Rightarrow> 32 word" where
  "encodeLocation K scopeIndex viewOffset =
     (word_of_int scopeIndex AND InjectorIndexMask K)
       OR push_bit (ViewOffsetShift K mod 32) (word_of_int viewOffset)"

text \<open>A layout for concrete runs: a mask of 15 bits below a shift of 16, the header
  slots at distinct positions, a container shorter than a view's header.\<close>

definition sampleLayout :: layout where
  "sampleLayout = \<lparr> HOST = 0, TVIEW = 1, PARENT = 3, T_HOST = 6, DECLARATION_VIEW = 7,
     LCONTAINER_LENGTH = 5, InjectorIndexMask = 0x7FFF, ViewOffsetShift = 16 \<rparr>"


section \<open>Views, containers and node descriptors\<close>

text \<open>
  A node descriptor (\<^verbatim>\<open>TNode\<close>) is static data shared by all instances of a template; the
  functions read its \<^verbatim>\<open>index\<close>, its \<^verbatim>\<open>injectorIndex\<close> (\<open>-1\<close> for none), its static
  \<^verbatim>\<open>parent\<close> and its \<^verbatim>\<open>next\<close> sibling (\<open>None\<close> is \<^verbatim>\<open>null\<close>; the selector is \<open>next'\<close>,
  \<open>next\<close> being a keyword). A \<^verbatim>\<open>TView\<close> is read for its \<^verbatim>\<open>firstChild\<close> only.
\<close>

datatype tnode =
  TNode (index: int) (injectorIndex: int) (parent: "tnode option") (next': "tnode option")

datatype tview = TView (firstChild: "tnode option")

text \<open>
  Views (\<^verbatim>\<open>LView\<close>), containers (\<^verbatim>\<open>LContainer\<close>) and styling contexts are JavaScript arrays
  that refer to each other (a view to its parent, the parent to the view in one of its
  slots), so arrays live in a heap and are values by reference. The code tells arrays
  from everything else with \<^verbatim>\<open>Array.isArray\<close>; everything else is an \<open>Atom\<close>.
\<close>

datatype 'a val = Atom 'a | ArrayRef addr

type_synonym 'a heap = "addr \<Rightarrow> 'a val list"

text \<open>What a slot of a view holds besides arrays: \<^verbatim>\<open>null\<close>, \<^verbatim>\<open>undefined\<close>, a render node
  (an opaque object of the renderer), a descriptor, a \<^verbatim>\<open>TView\<close>, or any other object.\<close>

datatype atom = Null | Undefined | RNode nat | TNodeRef tnode | TViewRef tview | Opaque nat

text \<open>Reading a property of \<^verbatim>\<open>null\<close> or \<^verbatim>\<open>undefined\<close> throws a TypeError; the assertions
  of the source are compiled out of a production build (\<^verbatim>\<open>ngDevMode &&\<close>).\<close>

datatype error = TypeError

text \<open>\<^verbatim>\<open>array[i]\<close>: \<^verbatim>\<open>undefined\<close> beyond the end of the array.\<close>

definition element :: "atom val list \<Rightarrow> nat \<Rightarrow> atom val" where
  "element xs i = (if i < length xs then xs ! i else Atom Undefined)"

text \<open>\<^verbatim>\<open>value[i]\<close> for a header constant or slot index \<open>i\<close>: an array yields its element, \<^verbatim>\<open>null\<close>
  and \<^verbatim>\<open>undefined\<close> throw, any other object has no such property.\<close>

fun getItem :: "atom heap \<Rightarrow> atom val \<Rightarrow> nat \<Rightarrow> error + atom val" where
  "getItem h (ArrayRef a) i = Inr (element (h a) i)"
| "getItem h (Atom Null) i = Inl TypeError"
| "getItem h (Atom Undefined) i = Inl TypeError"
| "getItem h (Atom x) i = Inr (Atom Undefined)"

text \<open>\<^verbatim>\<open>value[tNode.index]\<close>: the index is a number of the descriptor; no array has an element
  at a negative index.\<close>

definition getSlot :: "atom heap \<Rightarrow> atom val \<Rightarrow> int \<Rightarrow> error + atom val" where
  "getSlot h v i =
     (if 0 \<le> i then getItem h v (nat i)
      else (case getItem h v 0 of Inl e \<Rightarrow> Inl e | Inr _ \<Rightarrow> Inr (Atom Undefined)))"

text \<open>\<^verbatim>\<open>return Array.isArray(value) && value.length === LCONTAINER_LENGTH;\<close>\<close>

fun isLContainer :: "layout \<Rightarrow> atom heap \<Rightarrow> atom val \<Rightarrow> bool" where
  "isLContainer K h (ArrayRef a) = (length (h a) = LCONTAINER_LENGTH K)"
| "isLContainer K h (Atom x) = False"

text \<open>
  \<^verbatim>\<open>const parent = lView[PARENT];
  return isLContainer(parent) ? parent[PARENT] ! : parent;\<close>
\<close>

definition getLViewParent :: "layout \<Rightarrow> atom heap \<Rightarrow> atom val \<Rightarrow> error + atom val" where
  "getLViewParent K h lView =
     (case getItem h lView (PARENT K) of
        Inl e \<Rightarrow> Inl e
      | Inr parent' \<Rightarrow>
          if isLContainer K h parent' then getItem h parent' (PARENT K) else Inr parent')"

text \<open>
  \<^verbatim>\<open>while (Array.isArray(value)) { value = value[HOST] as any; }  return value;\<close>

  A chain of hosts can be cyclic in a heap, so the loop need not end: \<open>None\<close> is the run
  that never returns.
\<close>

partial_function (option) readElementValue :: "layout \<Rightarrow> atom heap \<Rightarrow> atom val \<Rightarrow> atom val option"
  where
  "readElementValue K h v =
     (case v of
        ArrayRef a \<Rightarrow> readElementValue K h (element (h a) (HOST K))
      | Atom x \<Rightarrow> Some (Atom x))"

text \<open>\<^verbatim>\<open>tView.firstChild\<close>, where \<^verbatim>\<open>tView = lView[TVIEW]\<close>: a descriptor or nothing (\<^verbatim>\<open>null\<close>, or
  \<^verbatim>\<open>undefined\<close> when the object is no \<^verbatim>\<open>TView\<close>).\<close>

fun firstChildOf :: "atom val \<Rightarrow> error + tnode option" where
  "firstChildOf (Atom (TViewRef tv)) = Inr (firstChild tv)"
| "firstChildOf (Atom Null) = Inl TypeError"
| "firstChildOf (Atom Undefined) = Inl TypeError"
| "firstChildOf v = Inr None"

text \<open>
  \<^verbatim>\<open>let lastChild: TNode;
  while (child) { lastChild = child; child = child.next; }\<close>
\<close>

fun lastChildLoop :: "tnode option \<Rightarrow> tnode option \<Rightarrow> tnode option" where
  "lastChildLoop None lastChild = lastChild"
| "lastChildLoop (Some (TNode i j p n)) lastChild = lastChildLoop n (Some (TNode i j p n))"

text \<open>
  \<^verbatim>\<open>const tView = lView[TVIEW];
  let child = tView.firstChild;
  ...
  return lView[lastChild !.index];\<close>

  With no first child \<^verbatim>\<open>lastChild\<close> stays \<^verbatim>\<open>undefined\<close> and reading its index throws.
\<close>

definition getLastRootElementFromView :: "layout \<Rightarrow> atom heap \<Rightarrow> atom val \<Rightarrow> error + atom val"
  where
  "getLastRootElementFromView K h lView =
     (case getItem h lView (TVIEW K) of
        Inl e \<Rightarrow> Inl e
      | Inr tView \<Rightarrow>
          (case firstChildOf tView of
             Inl e \<Rightarrow> Inl e
           | Inr child \<Rightarrow>
               (case lastChildLoop child None of
                  None \<Rightarrow> Inl TypeError
                | Some lastChild \<Rightarrow> getSlot h lView (index lastChild))))"

text \<open>
  \<^verbatim>\<open>while (viewOffset > 0) { parentView = parentView[DECLARATION_VIEW] !; viewOffset--; }
  return parentView;\<close>
\<close>

function getParentInjectorView_loop ::
  "layout \<Rightarrow> atom heap \<Rightarrow> int \<Rightarrow> atom val \<Rightarrow> error + atom val" where
  "getParentInjectorView_loop K h viewOffset parentView =
     (if viewOffset > 0 then
        (case getItem h parentView (DECLARATION_VIEW K) of
           Inl e \<Rightarrow> Inl e
         | Inr v \<Rightarrow> getParentInjectorView_loop K h (viewOffset - 1) v)
      else Inr parentView)"
  by pat_completeness auto
termination
  by (relation "measure (\<lambda>(K, h, viewOffset, parentView). nat viewOffset)") auto

definition getParentInjectorView :: "layout \<Rightarrow> atom heap \<Rightarrow> 32 word \<Rightarrow> atom val \<Rightarrow> error + atom val"
  where
  "getParentInjectorView K h location startView =
     getParentInjectorView_loop K h (getParentInjectorViewOffset K location) startView"

text \<open>
  The fast path of \<^verbatim>\<open>getParentInjectorTNode\<close>:
  \<^verbatim>\<open>while (parentTNode.parent != null && injectorIndex == parentTNode.injectorIndex) {
    parentTNode = parentTNode.parent;
  }
  return parentTNode;\<close>
\<close>

fun fastPath_loop :: "int \<Rightarrow> tnode \<Rightarrow> tnode" where
  "fastPath_loop injIndex (TNode i j None n) = TNode i j None n"
| "fastPath_loop injIndex (TNode i j (Some p) n) =
     (if injIndex = j then fastPath_loop injIndex p else TNode i j (Some p) n)"

text \<open>
  The cross-view path:
  \<^verbatim>\<open>while (viewOffset > 1) {
    parentView = parentView[DECLARATION_VIEW] !;
    parentTNode = parentView[T_HOST] as TElementNode;
    viewOffset--;
  }
  return parentTNode;\<close>
\<close>

function crossView_loop ::
  "layout \<Rightarrow> atom heap \<Rightarrow> int \<Rightarrow> atom val \<Rightarrow> atom val \<Rightarrow> error + atom val" where
  "crossView_loop K h viewOffset parentView parentTNode =
     (if viewOffset > 1 then
        (case getItem h parentView (DECLARATION_VIEW K) of
           Inl e \<Rightarrow> Inl e
         | Inr v \<Rightarrow>
             (case getItem h v (T_HOST K) of
                Inl e \<Rightarrow> Inl e
              | Inr t \<Rightarrow> crossView_loop K h (viewOffset - 1) v t))
      else Inr parentTNode)"
  by pat_completeness auto
termination
  by (relation "measure (\<lambda>(K, h, viewOffset, parentView, parentTNode). nat viewOffset)") auto

text \<open>
  \<^verbatim>\<open>let viewOffset = getParentInjectorViewOffset(location);
  let parentView = startView;
  let parentTNode = startView[T_HOST] as TElementNode;\<close>
\<close>

definition crossView :: "layout \<Rightarrow> atom heap \<Rightarrow> 32 word \<Rightarrow> atom val \<Rightarrow> error + atom val" where
  "crossView K h location startView =
     (case getItem h startView (T_HOST K) of
        Inl e \<Rightarrow> Inl e
      | Inr t \<Rightarrow> crossView_loop K h (getParentInjectorViewOffset K location) startView t)"

text \<open>
  \<^verbatim>\<open>if (startTNode.parent && startTNode.parent.injectorIndex !== -1) {
    const injectorIndex = startTNode.parent.injectorIndex;
    let parentTNode = startTNode.parent;
    ... fast path ...
  }
  ... cross-view path ...\<close>
\<close>

definition getParentInjectorTNode ::
  "layout \<Rightarrow> atom heap \<Rightarrow> 32 word \<Rightarrow> atom val \<Rightarrow> tnode \<Rightarrow> error + atom val" where
  "getParentInjectorTNode K h location startView startTNode =
     (case parent startTNode of
        None \<Rightarrow> crossView K h location startView
      | Some p \<Rightarrow>
          if injectorIndex p \<noteq> - 1
          then Inr (Atom (TNodeRef (fastPath_loop (injectorIndex p) p)))
          else crossView K h location startView)"

text \<open>
  The declaration-view chain in the spec's words: the value reached from a view by
  \<open>n\<close> hops to the declaration view, each hop a read of the slot \<^verbatim>\<open>DECLARATION_VIEW\<close>.
\<close>

primrec declarationViewHops :: "layout \<Rightarrow> atom heap \<Rightarrow> nat \<Rightarrow> atom val \<Rightarrow> error + atom val" where
  "declarationViewHops K h 0 view = Inr view"
| "declarationViewHops K h (Suc n) view =
     (case getItem h view (DECLARATION_VIEW K) of
        Inl e \<Rightarrow> Inl e
      | Inr v \<Rightarrow> declarationViewHops K h n v)"

text \<open>
  The fast path in the spec's words: from the static parent, ``while it has a further
  static parent AND that further parent shares the identical scope index, keep climbing''.
\<close>

fun fastPath_spec :: "int \<Rightarrow> tnode \<Rightarrow> tnode" where
  "fastPath_spec injIndex (TNode i j None n) = TNode i j None n"
| "fastPath_spec injIndex (TNode i j (Some p) n) =
     (if injectorIndex p = injIndex then fastPath_spec injIndex p else TNode i j (Some p) n)"


section \<open>Flattening nested arrays\<close>

text \<open>
  \<^verbatim>\<open>flatten\<close> allocates arrays (\<^verbatim>\<open>[]\<close>, \<^verbatim>\<open>slice\<close>, \<^verbatim>\<open>concat\<close>) and writes to one (\<^verbatim>\<open>push\<close>), so it
  runs on a store: the heap of arrays together with the number of addresses in use. The
  addresses below \<open>used\<close> hold the arrays that exist; a new array is put at \<open>used\<close>.
\<close>

record 'a store =
  cells :: "'a heap"
  used :: addr

definition alloc :: "'a val list \<Rightarrow> 'a store \<Rightarrow> addr \<times> 'a store" where
  "alloc xs s = (used s, s\<lparr>cells := (cells s)(used s := xs), used := Suc (used s)\<rparr>)"

text \<open>\<^verbatim>\<open>a.slice(start)\<close>: a new array with the elements of \<open>a\<close> from \<open>start\<close> on.\<close>

definition slice :: "addr \<Rightarrow> nat \<Rightarrow> 'a store \<Rightarrow> addr \<times> 'a store" where
  "slice a start s = alloc (drop start (cells s a)) s"

text \<open>\<^verbatim>\<open>a.concat(b)\<close> for an array \<open>b\<close>: a new array with the elements of \<open>a\<close>, then those of \<open>b\<close>.\<close>

definition concat_js :: "addr \<Rightarrow> addr \<Rightarrow> 'a store \<Rightarrow> addr \<times> 'a store" where
  "concat_js a b s = alloc (cells s a @ cells s b) s"

text \<open>\<^verbatim>\<open>a.push(x)\<close>: the one operation that writes to an existing array.\<close>

definition push :: "addr \<Rightarrow> 'a val \<Rightarrow> 'a store \<Rightarrow> 'a store" where
  "push a x s = s\<lparr>cells := (cells s)(a := cells s a @ [x])\<rparr>"

text \<open>\<^verbatim>\<open>item.concat(list.slice(i + 1))\<close>, the new value of the variable \<^verbatim>\<open>list\<close>.\<close>

definition unwrap :: "addr \<Rightarrow> nat \<Rightarrow> addr \<Rightarrow> 'a store \<Rightarrow> addr \<times> 'a store" where
  "unwrap list i item s =
     (case slice list (i + 1) s of (rest, s1) \<Rightarrow> concat_js item rest s1)"

text \<open>
  \<^verbatim>\<open>while (i < list.length) {
    const item = list[i];
    if (Array.isArray(item)) {
      if (item.length > 0) { list = item.concat(list.slice(i + 1)); i = 0; } else { i++; }
    } else { result.push(item); i++; }
  }
  return result;\<close>

  An array of a heap can contain itself, and then the loop runs forever: \<open>None\<close> is the
  run that never returns.
\<close>

partial_function (option) flatten_loop ::
  "'a store \<Rightarrow> addr \<Rightarrow> nat \<Rightarrow> addr \<Rightarrow> (addr \<times> 'a store) option" where
  "flatten_loop s list i result =
     (if i < length (cells s list) then
        (case cells s list ! i of
           ArrayRef item \<Rightarrow>
             if length (cells s item) > 0
             then (case unwrap list i item s of (list', s') \<Rightarrow> flatten_loop s' list' 0 result)
             else flatten_loop s list (i + 1) result
         | Atom x \<Rightarrow> flatten_loop (push result (Atom x) s) list (i + 1) result)
      else Some (result, s))"

text \<open>\<^verbatim>\<open>const result: any[] = [];  let i = 0;  ...\<close>: the function returns the address of its
  result and the store it leaves.\<close>

definition flatten :: "'a store \<Rightarrow> addr \<Rightarrow> (addr \<times> 'a store) option" where
  "flatten s list = (case alloc [] s of (result, s0) \<Rightarrow> flatten_loop s0 list 0 result)"

text \<open>
  A finite nested sequence, as the spec speaks of it: a leaf that is no sequence, or a
  sequence of nested sequences; its leaves from left to right; the number of array
  wrappers in it.
\<close>

datatype 'a nested = Leaf 'a | Nested "'a nested list"

fun leaves :: "'a nested \<Rightarrow> 'a list" where
  "leaves (Leaf x) = [x]"
| "leaves (Nested ts) = concat (map leaves ts)"

fun wrappers :: "'a nested \<Rightarrow> nat" where
  "wrappers (Leaf x) = 0"
| "wrappers (Nested ts) = Suc (sum_list (map wrappers ts))"

definition wrappersList :: "'a nested list \<Rightarrow> nat" where
  "wrappersList ts = sum_list (map wrappers ts)"

text \<open>
  A value of a store stands for a finite nested sequence when following its references
  through arrays in use unfolds it into that sequence. A value that has such a reading
  is finite and acyclic (an array that is reached twice is read twice).
\<close>

fun represents :: "'a store \<Rightarrow> 'a val \<Rightarrow> 'a nested \<Rightarrow> bool" where
  "represents s (Atom x) (Leaf y) = (x = y)"
| "represents s (ArrayRef a) (Nested ts) =
     (a < used s \<and> list_all2 (\<lambda>v t. represents s v t) (cells s a) ts)"
| "represents s (Atom x) (Nested ts) = False"
| "represents s (ArrayRef a) (Leaf y) = False"


section \<open>Concrete views, descriptors and arrays\<close>

text \<open>Descriptors: the two root nodes of an embedded template, and the host nodes of
  the embedded view and of the component view that declares it.\<close>

definition lastRoot :: tnode where
  "lastRoot = TNode 9 (- 1) None None"

definition firstRoot :: tnode where
  "firstRoot = TNode 8 (- 1) None (Some lastRoot)"

definition embeddedHost :: tnode where
  "embeddedHost = TNode 8 (- 1) None None"

definition componentHost :: tnode where
  "componentHost = TNode 8 0 None None"

text \<open>A static chain for the fast path: the start descriptor, its parent with scope
  index 5, above it two descriptors with scope index 3, the upper one without a parent.\<close>

definition outerNode :: tnode where
  "outerNode = TNode 8 3 None None"

definition middleNode :: tnode where
  "middleNode = TNode 9 3 (Some outerNode) None"

definition innerNode :: tnode where
  "innerNode = TNode 10 5 (Some middleNode) None"

definition startNode :: tnode where
  "startNode = TNode 11 (- 1) (Some innerNode) None"

text \<open>
  A heap under \<open>sampleLayout\<close>. Address 0 is an embedded view: it sits in the container
  at address 1, was declared in the component view at address 2, and the slot of its
  last root node (index 9) holds the container at address 3, which wraps render node 12.
  Address 4 is the root view. The container at 1 holds the view at 0, which refers back
  to it.
\<close>

definition sampleHeap :: "atom heap" where
  "sampleHeap = (\<lambda>_. [])
     (0 := [Atom (RNode 10), Atom (TViewRef (TView (Some firstRoot))), Atom (Opaque 0),
            ArrayRef 1, Atom Null, Atom Null, Atom (TNodeRef embeddedHost), ArrayRef 2,
            Atom (RNode 11), ArrayRef 3],
      1 := [Atom (RNode 13), Atom Null, Atom Null, ArrayRef 2, ArrayRef 0],
      2 := [Atom (RNode 14), Atom (TViewRef (TView None)), Atom (Opaque 0),
            ArrayRef 4, Atom Null, Atom Null, Atom (TNodeRef componentHost), ArrayRef 4,
            ArrayRef 1],
      3 := [Atom (RNode 12), Atom Null, Atom Null, ArrayRef 0, Atom Null],
      4 := [Atom Null, Atom (TViewRef (TView None)), Atom (Opaque 1),
            Atom Null, Atom Null, Atom Null, Atom Null, Atom Null, ArrayRef 2])"

text \<open>The arrays \<^verbatim>\<open>[1, [2, [3, 4]], 5]\<close> (at address 0) and \<^verbatim>\<open>[[]]\<close> (at address 0).\<close>

definition nestedExample :: "int store" where
  "nestedExample =
     \<lparr> cells = (\<lambda>_. [])(0 := [Atom 1, ArrayRef 1, Atom 5],
                         1 := [Atom 2, ArrayRef 2],
                         2 := [Atom 3, Atom 4]),
       used = 3 \<rparr>"

definition emptyExample :: "int store" where
  "emptyExample = \<lparr> cells = (\<lambda>_. [])(0 := [ArrayRef 1], 1 := []), used = 2 \<rparr>"


section \<open>Properties of \<open>isDifferent\<close>\<close>

lemma numberEqual_refl: "numberEqual x x = (x \<noteq> NaN)"
  by (cases x) simp_all

lemma numberEqual_sym: "numberEqual x y = numberEqual y x"
  by (cases x; cases y) auto

lemma strictEquals_refl: "strictEquals a a = (\<not> isNaN a)"
  by (cases a) (simp_all add: isNaN_def numberEqual_refl)

lemma strictEquals_sym: "strictEquals a b = strictEquals b a"
  by (cases a; cases b) (auto simp: numberEqual_sym)

lemma strictEquals_NaN_left: "isNaN a \<Longrightarrow> \<not> strictEquals a b"
  by (cases b) (simp_all add: isNaN_def)

text \<open>
  C5. For all values \<open>a\<close> and \<open>b\<close>, \<open>isDifferent a b\<close> is false exactly when \<open>a\<close> and \<open>b\<close>
  are strictly (reference or scalar) equal or both are NaN, and true for every other
  pairing; in particular \<open>isDifferent(NaN, NaN)\<close> and \<open>isDifferent(1, 1)\<close> are false,
  \<open>isDifferent(1, 2)\<close> and \<open>isDifferent(NaN, 1)\<close> are true.
\<close>

theorem isDifferent_iff:
  "(\<forall>a b. (\<not> isDifferent a b) = (strictEquals a b \<or> (isNaN a \<and> isNaN b)))
   \<and> isDifferent (ANumber NaN) (ANumber NaN) = False
   \<and> isDifferent (ANumber (Fin 1)) (ANumber (Fin 1)) = False
   \<and> isDifferent (ANumber (Fin 1)) (ANumber (Fin 2)) = True
   \<and> isDifferent (ANumber NaN) (ANumber (Fin 1)) = True"
proof -
  have general: "(\<not> isDifferent a b) = (strictEquals a b \<or> (isNaN a \<and> isNaN b))" for a b
  proof (cases "isNaN a")
    case True
    then show ?thesis
      by (simp add: isDifferent_def strictNotEquals_def strictEquals_refl
          strictEquals_NaN_left)
  next
    case False
    then show ?thesis
      by (simp add: isDifferent_def strictNotEquals_def strictEquals_refl)
  qed
  have examples:
    "isDifferent (ANumber NaN) (ANumber NaN) = False"
    "isDifferent (ANumber (Fin 1)) (ANumber (Fin 1)) = False"
    "isDifferent (ANumber (Fin 1)) (ANumber (Fin 2)) = True"
    "isDifferent (ANumber NaN) (ANumber (Fin 1)) = True"
    by (simp_all add: isDifferent_def strictNotEquals_def)
  from general examples show ?thesis by blast
qed

text \<open>
  C9. \<open>isDifferent\<close> is symmetric: \<open>isDifferent a b\<close> and \<open>isDifferent b a\<close> agree for all
  values.
\<close>

theorem isDifferent_symmetric: "isDifferent a b = isDifferent b a"
  unfolding isDifferent_def strictNotEquals_def
  using strictEquals_sym [of a b] by auto


section \<open>Properties of the location codec\<close>

lemma packed_as_sum:
  fixes i v :: int
  assumes "take_bit s i = i"
  shows "((word_of_int i :: 32 word) OR push_bit s (word_of_int v)) = word_of_int (i + v * 2 ^ s)"
proof -
  have "i OR push_bit s v = concat_bit s i v"
    using assms by (simp add: concat_bit_def)
  also have "\<dots> = i + v * 2 ^ s"
    using assms by (simp add: concat_bit_eq push_bit_eq_mult)
  finally have "i OR push_bit s v = i + v * 2 ^ s" .
  then show ?thesis
    by (metis word_wi_log_defs(3) push_bit_of_int)
qed

lemma packed_bounds:
  fixes i v :: int
  assumes "s < 32" "0 \<le> i" "i < 2 ^ s" "0 \<le> v" "v < 2 ^ (31 - s)"
  shows "0 \<le> i + v * 2 ^ s" and "i + v * 2 ^ s < 2 ^ 31"
proof -
  show "0 \<le> i + v * 2 ^ s" using assms by simp
  have "v + 1 \<le> 2 ^ (31 - s)" using assms by simp
  then have "(v + 1) * 2 ^ s \<le> (2::int) ^ (31 - s) * 2 ^ s"
    by (rule mult_right_mono) simp
  also have "\<dots> = 2 ^ 31"
    using assms(1) by (simp flip: power_add)
  finally have "(v + 1) * 2 ^ s \<le> (2::int) ^ 31" .
  then show "i + v * 2 ^ s < 2 ^ 31"
    using assms(3) by (simp add: algebra_simps)
qed

lemma sint_small:
  fixes x :: int
  assumes "0 \<le> x" "x < 2 ^ 31"
  shows "sint (word_of_int x :: 32 word) = x"
  using assms by (simp add: signed_of_int signed_take_bit_int_eq_self)

text \<open>
  C6. For every scope index within the range of the injector-index mask (a mask of \<open>w\<close>
  low bits, below the shift) and every view offset that is non-negative and below
  \<open>2 ^ (31 - shift)\<close>, decoding the packed location with \<open>getParentInjectorIndex\<close> and
  \<open>getParentInjectorViewOffset\<close> gives back exactly the scope index and the view offset.
  The bound is one bit short of the bits above the shift: \<^verbatim>\<open>>>\<close> propagates the sign, so a
  view offset that sets bit 31 of the location is decoded as a negative number.
\<close>

theorem codec_roundtrip:
  fixes scopeIndex viewOffset :: int
  assumes "InjectorIndexMask K = mask w" "w \<le> ViewOffsetShift K" "ViewOffsetShift K < 32"
    and "0 \<le> scopeIndex" "scopeIndex < 2 ^ w"
    and "0 \<le> viewOffset" "viewOffset < 2 ^ (31 - ViewOffsetShift K)"
  shows "getParentInjectorIndex K (encodeLocation K scopeIndex viewOffset) = scopeIndex
       \<and> getParentInjectorViewOffset K (encodeLocation K scopeIndex viewOffset) = viewOffset"
proof -
  define s where "s = ViewOffsetShift K"
  define x where "x = scopeIndex + viewOffset * 2 ^ s"
  have lt_s: "scopeIndex < 2 ^ s"
  proof -
    have "(2::int) ^ w \<le> 2 ^ s" using assms(2) by (simp add: s_def)
    with assms(5) show ?thesis by linarith
  qed
  have tw: "take_bit w scopeIndex = scopeIndex"
    using assms(4,5) by (simp add: take_bit_int_eq_self)
  have ts: "take_bit s scopeIndex = scopeIndex"
    using assms(4) lt_s by (simp add: take_bit_int_eq_self)
  have masked: "(word_of_int scopeIndex AND mask w :: 32 word) = word_of_int scopeIndex"
    using tw by (simp add: and_mask_wi)
  have loc: "encodeLocation K scopeIndex viewOffset = word_of_int x"
    using packed_as_sum [OF ts, of viewOffset] assms(1,3)
    by (simp add: encodeLocation_def masked s_def x_def)
  have x0: "0 \<le> x" and x31: "x < 2 ^ 31"
    using packed_bounds [of s scopeIndex viewOffset] assms lt_s
    by (simp_all add: x_def s_def)
  have "take_bit w x = take_bit w scopeIndex"
  proof -
    have "viewOffset * 2 ^ s = (viewOffset * 2 ^ (s - w)) * 2 ^ w"
      using assms(2) by (simp add: s_def flip: power_add)
    then have "x = scopeIndex + (viewOffset * 2 ^ (s - w)) * 2 ^ w"
      by (simp add: x_def)
    then show ?thesis
      by (simp add: take_bit_eq_mod)
  qed
  then have "(word_of_int x AND mask w :: 32 word) = word_of_int scopeIndex"
    using tw by (simp add: and_mask_wi)
  then have idx: "getParentInjectorIndex K (word_of_int x) = scopeIndex"
  proof -
    have "scopeIndex < 2 ^ 31"
    proof -
      have "(2::int) ^ s \<le> 2 ^ 31"
        by (rule power_increasing) (use assms(3) in \<open>simp_all add: s_def\<close>)
      with lt_s show ?thesis by linarith
    qed
    with assms(1,4) \<open>(word_of_int x AND mask w :: 32 word) = word_of_int scopeIndex\<close>
    show ?thesis
      by (simp add: getParentInjectorIndex_def sint_small)
  qed
  have "drop_bit s x = viewOffset"
    using assms(4) lt_s by (simp add: x_def drop_bit_eq_div)
  then have off: "getParentInjectorViewOffset K (word_of_int x) = viewOffset"
    using assms(3) x0 x31
    by (simp add: getParentInjectorViewOffset_def sint_signed_drop_bit_eq sint_small s_def)
  from idx off loc show ?thesis by simp
qed

theorem codec_roundtrip_witness:
  "getParentInjectorIndex sampleLayout (encodeLocation sampleLayout 5 2) = 5
   \<and> getParentInjectorViewOffset sampleLayout (encodeLocation sampleLayout 5 2) = 2"
  using codec_roundtrip [of sampleLayout 15 5 2]
  by (simp add: sampleLayout_def mask_eq_exp_minus_1)

text \<open>
  Beyond that bound the round trip fails. With a shift of 16 the view offset 32768 fits
  the 16 bits above the shift, and the encoder stores it there intact; the scope index
  is decoded as 5, but the view offset is decoded as \<open>-32768\<close>.
\<close>

lemma encoded_5_32768: "encodeLocation sampleLayout 5 32768 = 0x80000005"
  by (simp add: encodeLocation_def sampleLayout_def)

theorem codec_roundtrip_counterexample:
  "(0::int) \<le> 32768 \<and> (32768::int) < 2 ^ (32 - ViewOffsetShift sampleLayout)
   \<and> drop_bit (ViewOffsetShift sampleLayout) (encodeLocation sampleLayout 5 32768) = 32768
   \<and> getParentInjectorIndex sampleLayout (encodeLocation sampleLayout 5 32768) = 5
   \<and> getParentInjectorViewOffset sampleLayout (encodeLocation sampleLayout 5 32768) = - 32768
   \<and> getParentInjectorViewOffset sampleLayout (encodeLocation sampleLayout 5 32768) \<noteq> 32768"
  unfolding encoded_5_32768 getParentInjectorIndex_def getParentInjectorViewOffset_def
  by (simp add: sampleLayout_def)


section \<open>Properties of view navigation\<close>

lemma sampleLayout_simps:
  "HOST sampleLayout = 0" "TVIEW sampleLayout = 1" "PARENT sampleLayout = 3"
  "T_HOST sampleLayout = 6" "DECLARATION_VIEW sampleLayout = 7"
  "LCONTAINER_LENGTH sampleLayout = 5"
  by (simp_all add: sampleLayout_def)

lemma offset_of_131077: "getParentInjectorViewOffset sampleLayout 131077 = 2"
  by (simp add: getParentInjectorViewOffset_def sampleLayout_def)

lemma offset_of_5: "getParentInjectorViewOffset sampleLayout 5 = 0"
  by (simp add: getParentInjectorViewOffset_def sampleLayout_def)

lemma getParentInjectorView_loop_hops:
  "getParentInjectorView_loop K h n v = declarationViewHops K h (nat n) v"
proof (induction K h n v rule: getParentInjectorView_loop.induct)
  case (1 K h viewOffset parentView)
  show ?case
  proof (cases "viewOffset > 0")
    case True
    then have step: "nat viewOffset = Suc (nat (viewOffset - 1))" by simp
    show ?thesis
      using True "1.IH"
      by (subst getParentInjectorView_loop.simps, subst step)
         (simp del: getParentInjectorView_loop.simps split: sum.splits)
  next
    case False
    then show ?thesis
      by (subst getParentInjectorView_loop.simps) (simp del: getParentInjectorView_loop.simps)
  qed
qed

text \<open>
  C7. For every location and every start view, \<open>getParentInjectorView\<close> climbs the
  declaration-view chain exactly view-offset times from the start view and returns the
  view it reaches (where the chain is too short for that many hops, the hop that cannot
  be made throws, in the function as in the chain); with a view offset of 0 it returns
  the start view unchanged.
\<close>

theorem getParentInjectorView_climbs:
  "getParentInjectorView K h location startView
     = declarationViewHops K h (nat (getParentInjectorViewOffset K location)) startView
   \<and> (getParentInjectorViewOffset K location = 0
        \<longrightarrow> getParentInjectorView K h location startView = Inr startView)"
  by (simp add: getParentInjectorView_def getParentInjectorView_loop_hops
      del: getParentInjectorView_loop.simps)

theorem getParentInjectorView_climbs_witness:
  "getParentInjectorViewOffset sampleLayout 5 = 0
   \<and> getParentInjectorView sampleLayout sampleHeap 5 (ArrayRef 0) = Inr (ArrayRef 0)
   \<and> getParentInjectorViewOffset sampleLayout 131077 = 2
   \<and> getParentInjectorView sampleLayout sampleHeap 131077 (ArrayRef 0) = Inr (ArrayRef 4)"
  using getParentInjectorView_climbs [of sampleLayout sampleHeap 5 "ArrayRef 0"]
    getParentInjectorView_climbs [of sampleLayout sampleHeap 131077 "ArrayRef 0"]
  by (simp add: offset_of_5 offset_of_131077 sampleLayout_simps sampleHeap_def element_def
      numeral_2_eq_2)

text \<open>
  C8. For every view, \<open>getLViewParent\<close> returns the container's own parent (the slot
  \<^verbatim>\<open>PARENT\<close> of the container) when the view's raw parent reference is a container, and
  the raw parent reference itself otherwise.
\<close>

theorem getLViewParent_cases:
  "(isLContainer K h (element (h v) (PARENT K)) \<longrightarrow>
      (\<exists>c. element (h v) (PARENT K) = ArrayRef c
         \<and> length (h c) = LCONTAINER_LENGTH K
         \<and> getLViewParent K h (ArrayRef v) = Inr (element (h c) (PARENT K))))
   \<and> (\<not> isLContainer K h (element (h v) (PARENT K)) \<longrightarrow>
        getLViewParent K h (ArrayRef v) = Inr (element (h v) (PARENT K)))"
  by (cases "element (h v) (PARENT K)") (simp_all add: getLViewParent_def)

theorem getLViewParent_cases_witness:
  "isLContainer sampleLayout sampleHeap (element (sampleHeap 0) (PARENT sampleLayout))
   \<and> getLViewParent sampleLayout sampleHeap (ArrayRef 0) = Inr (ArrayRef 2)
   \<and> \<not> isLContainer sampleLayout sampleHeap (element (sampleHeap 2) (PARENT sampleLayout))
   \<and> getLViewParent sampleLayout sampleHeap (ArrayRef 2) = Inr (ArrayRef 4)"
  using getLViewParent_cases [of sampleLayout sampleHeap 0]
    getLViewParent_cases [of sampleLayout sampleHeap 2]
  by (simp add: sampleLayout_def sampleHeap_def element_def)

lemma getItem_error_any_index: "getItem h v i = Inl e \<Longrightarrow> getItem h v j = Inl e"
  by (cases "(h, v, i)" rule: getItem.cases) auto

lemma hops_then_host_error:
  assumes "getItem h v i = Inl e"
  shows "(case declarationViewHops K h k v of Inl e' \<Rightarrow> Inl e' | Inr w \<Rightarrow> getItem h w j) = Inl e"
proof (cases k)
  case 0
  then show ?thesis using getItem_error_any_index [OF assms, of j] by simp
next
  case (Suc m)
  then show ?thesis
    using getItem_error_any_index [OF assms, of "DECLARATION_VIEW K"] by simp
qed

lemma crossView_loop_hops:
  assumes "1 \<le> n" and "getItem h pv (T_HOST K) = Inr pt"
  shows "crossView_loop K h n pv pt =
     (case declarationViewHops K h (nat (n - 1)) pv of
        Inl e \<Rightarrow> Inl e
      | Inr v \<Rightarrow> getItem h v (T_HOST K))"
  using assms
proof (induction K h n pv pt rule: crossView_loop.induct)
  case (1 K h viewOffset parentView parentTNode)
  show ?case
  proof (cases "viewOffset > 1")
    case False
    with "1.prems" have "viewOffset = 1" by simp
    with "1.prems" show ?thesis
      by (subst crossView_loop.simps) (simp del: crossView_loop.simps)
  next
    case True
    then have step: "nat (viewOffset - 1) = Suc (nat (viewOffset - 1 - 1))" by simp
    show ?thesis
    proof (cases "getItem h parentView (DECLARATION_VIEW K)")
      case (Inl e)
      with True show ?thesis
        by (subst crossView_loop.simps, subst step) (simp del: crossView_loop.simps)
    next
      case (Inr v)
      note v = this
      show ?thesis
      proof (cases "getItem h v (T_HOST K)")
        case (Inl e)
        with True v hops_then_host_error [OF Inl, where K = K and k = "nat (viewOffset - 1 - 1)" and j = "T_HOST K"]
        show ?thesis
          by (subst crossView_loop.simps, subst step) (simp del: crossView_loop.simps)
      next
        case (Inr t)
        from True have "1 \<le> viewOffset - 1" by simp
        from "1.IH" [OF True v Inr this Inr] True v Inr
        show ?thesis
          by (subst crossView_loop.simps, subst step) (simp del: crossView_loop.simps)
      qed
    qed
  qed
qed

text \<open>
  C1. For every location whose view offset is \<open>n \<ge> 1\<close>, every start view, and every start
  descriptor whose static parent has no usable scope index (there is no parent, or its
  \<^verbatim>\<open>injectorIndex\<close> is \<open>-1\<close>), \<open>getParentInjectorTNode\<close> climbs the declaration-view chain
  exactly \<open>n - 1\<close> times from the start view and returns the slot \<^verbatim>\<open>T_HOST\<close> of the view
  it reaches.
\<close>

theorem getParentInjectorTNode_cross_view:
  assumes "1 \<le> getParentInjectorViewOffset K location"
    and "parent startTNode = None \<or> (\<exists>p. parent startTNode = Some p \<and> injectorIndex p = - 1)"
  shows "getParentInjectorTNode K h location startView startTNode =
     (case declarationViewHops K h (nat (getParentInjectorViewOffset K location - 1)) startView of
        Inl e \<Rightarrow> Inl e
      | Inr finalView \<Rightarrow> getItem h finalView (T_HOST K))"
proof -
  have path: "getParentInjectorTNode K h location startView startTNode
      = crossView K h location startView"
    using assms(2) by (auto simp: getParentInjectorTNode_def)
  show ?thesis
  proof (cases "getItem h startView (T_HOST K)")
    case (Inl e)
    then show ?thesis
      using hops_then_host_error [OF Inl, where K = K and j = "T_HOST K"]
      by (simp add: path crossView_def del: crossView_loop.simps)
  next
    case (Inr t)
    then show ?thesis
      using crossView_loop_hops [OF assms(1) Inr]
      by (simp add: path crossView_def del: crossView_loop.simps)
  qed
qed

theorem getParentInjectorTNode_cross_view_witness:
  "1 \<le> getParentInjectorViewOffset sampleLayout 131077
   \<and> parent firstRoot = None
   \<and> getParentInjectorTNode sampleLayout sampleHeap 131077 (ArrayRef 0) firstRoot
       = Inr (Atom (TNodeRef componentHost))"
  using getParentInjectorTNode_cross_view [of sampleLayout 131077 firstRoot sampleHeap "ArrayRef 0"]
  by (simp add: offset_of_131077 sampleLayout_simps sampleHeap_def element_def firstRoot_def)

text \<open>
  C2. On the fast path the function is to climb from the static parent while the further
  parent shares the scope index, and to return the first ancestor whose scope index
  differs from its own parent's, or the last reachable ancestor. The loop of the source
  tests the scope index of the node it stands on, not that of the node's parent, so it
  climbs one node too far. For a start descriptor whose parent has scope index 5, below
  two ancestors with scope index 3, it returns the lower of the two, for every location
  and start view: a node that shares its scope index with its own parent and is not the
  last ancestor. The rule in the spec's words stays at the parent, whose scope index
  differs from that of the node above it.
\<close>

theorem getParentInjectorTNode_fast_path_overshoots:
  "(\<forall>location startView.
      getParentInjectorTNode sampleLayout sampleHeap location startView startNode
        = Inr (Atom (TNodeRef middleNode)))
   \<and> fastPath_spec (injectorIndex innerNode) innerNode = innerNode
   \<and> parent startNode = Some innerNode
   \<and> parent innerNode = Some middleNode
   \<and> injectorIndex innerNode \<noteq> injectorIndex middleNode
   \<and> parent middleNode = Some outerNode
   \<and> injectorIndex middleNode = injectorIndex outerNode
   \<and> middleNode \<noteq> innerNode"
  by (simp add: getParentInjectorTNode_def startNode_def innerNode_def middleNode_def
      outerNode_def)

text \<open>
  C3. \<open>getLastRootElementFromView\<close> is to resolve the slot of the last root descriptor
  to a bare render node. The source walks the sibling chain to the last root descriptor
  and returns the slot as it is: in the sample heap the slot of the last root node of
  the view at address 0 holds a container, and the function returns the reference to
  the container, not the render node 12 that \<open>readElementValue\<close> finds in it.
\<close>

theorem getLastRootElementFromView_returns_wrapper:
  "getLastRootElementFromView sampleLayout sampleHeap (ArrayRef 0) = Inr (ArrayRef 3)
   \<and> readElementValue sampleLayout sampleHeap (ArrayRef 3) = Some (Atom (RNode 12))"
  by (simp add: getLastRootElementFromView_def getSlot_def sampleLayout_def sampleHeap_def
      element_def firstRoot_def lastRoot_def readElementValue.simps)


section \<open>Properties of \<open>flatten\<close>\<close>

lemma represents_ArrayRef:
  "represents s (ArrayRef a) t \<Longrightarrow> \<exists>ts. t = Nested ts \<and> a < used s \<and> list_all2 (represents s) (cells s a) ts"
  by (cases t) simp_all

lemma represents_Atom: "represents s (Atom x) t \<Longrightarrow> t = Leaf x"
  by (cases t) simp_all

lemma represents_frame:
  assumes "represents s v t"
    and "\<forall>a<used s. cells s' a = cells s a" and "used s \<le> used s'"
  shows "represents s' v t"
  using assms
proof (induction s v t rule: represents.induct)
  case (2 s a ts)
  from "2.prems"(1) have a: "a < used s" and all: "list_all2 (represents s) (cells s a) ts"
    by simp_all
  have "list_all2 (represents s') (cells s a) ts"
    using all
  proof (rule list.rel_mono_strong)
    fix v t
    assume "v \<in> set (cells s a)" "t \<in> set ts" "represents s v t"
    then show "represents s' v t"
      using "2.IH" "2.prems"(2,3) by blast
  qed
  with a "2.prems"(2,3) show ?case by simp
qed simp_all

lemma leaves_concat_append:
  "concat (map leaves (us @ r)) = concat (map leaves us) @ concat (map leaves r)"
  by simp

lemma drop_as_Cons:
  assumes "drop i xs = v # rest"
  shows "i < length xs" and "xs ! i = v" and "drop (Suc i) xs = rest"
proof -
  show len: "i < length xs"
    using assms by (metis drop_all list.distinct(1) not_le)
  from Cons_nth_drop_Suc [OF len] assms show "xs ! i = v" and "drop (Suc i) xs = rest"
    by simp_all
qed

text \<open>
  The loop, started on a working list whose unprocessed part stands for the nested
  sequences \<open>ts\<close> of the original store, returns; it has appended the leaves of \<open>ts\<close> to
  the result and has left every array of the original store as it was.
\<close>

lemma flatten_loop_run:
  assumes "list_all2 (represents orig) (drop i (cells s list)) ts"
    and "\<forall>a<used orig. cells s a = cells orig a"
    and "used orig \<le> result" and "result < used s" and "list < used s" and "list \<noteq> result"
  shows "\<exists>s'. flatten_loop s list i result = Some (result, s')
           \<and> cells s' result = cells s result @ map Atom (concat (map leaves ts))
           \<and> (\<forall>a<used orig. cells s' a = cells orig a)"
  using assms
proof (induction "size_list size ts" arbitrary: ts s list i rule: less_induct)
  case less
  note rep = less.prems(1) and frame = less.prems(2) and bounds = less.prems(3-6)
  show ?case
  proof (cases ts)
    case Nil
    with rep have "\<not> i < length (cells s list)" by simp
    then have "flatten_loop s list i result = Some (result, s)"
      by (subst flatten_loop.simps) simp
    with Nil frame show ?thesis by simp
  next
    case (Cons t r)
    with rep obtain v rest where dr: "drop i (cells s list) = v # rest"
      and vt: "represents orig v t" and rr: "list_all2 (represents orig) rest r"
      by (auto simp: list_all2_Cons2)
    note at = drop_as_Cons [OF dr]
    show ?thesis
    proof (cases v)
      case (Atom x)
      with vt have t: "t = Leaf x" by (simp add: represents_Atom)
      let ?s1 = "push result (Atom x) s"
      have step: "flatten_loop s list i result = flatten_loop ?s1 list (i + 1) result"
        using at Atom by (subst flatten_loop.simps) simp
      have c1: "cells ?s1 list = cells s list" "cells ?s1 result = cells s result @ [Atom x]"
        "used ?s1 = used s"
        using bounds by (simp_all add: push_def)
      have f1: "\<forall>a<used orig. cells ?s1 a = cells orig a"
        using frame bounds by (simp add: push_def)
      have lt: "size_list size r < size_list size ts" using Cons by simp
      have rep1: "list_all2 (represents orig) (drop (i + 1) (cells ?s1 list)) r"
        using rr at(3) c1 by simp
      obtain s' where "flatten_loop ?s1 list (i + 1) result = Some (result, s')"
        and "cells s' result = cells ?s1 result @ map Atom (concat (map leaves r))"
        and "\<forall>a<used orig. cells s' a = cells orig a"
        using less.hyps [OF lt rep1 f1] c1 bounds by auto
      with step c1 Cons t show ?thesis by simp
    next
      case (ArrayRef item)
      with vt obtain us where t: "t = Nested us" and item: "item < used orig"
        and us: "list_all2 (represents orig) (cells orig item) us"
        using represents_ArrayRef by blast
      from item frame have ci: "cells s item = cells orig item" by simp
      show ?thesis
      proof (cases "us = []")
        case True
        with us ci have "cells s item = []" by simp
        then have step: "flatten_loop s list i result = flatten_loop s list (i + 1) result"
          using at ArrayRef by (subst flatten_loop.simps) simp
        have lt: "size_list size r < size_list size ts" using Cons by simp
        have rep1: "list_all2 (represents orig) (drop (i + 1) (cells s list)) r"
          using rr at(3) by simp
        obtain s' where "flatten_loop s list (i + 1) result = Some (result, s')"
          and "cells s' result = cells s result @ map Atom (concat (map leaves r))"
          and "\<forall>a<used orig. cells s' a = cells orig a"
          using less.hyps [OF lt rep1 frame] bounds by auto
        with step Cons t True show ?thesis by simp
      next
        case False
        with us ci have ne: "length (cells s item) > 0" by auto
        obtain list' s2 where uw: "unwrap list i item s = (list', s2)"
          by (cases "unwrap list i item s")
        have step: "flatten_loop s list i result = flatten_loop s2 list' 0 result"
          using at ArrayRef ne uw by (subst flatten_loop.simps) simp
        from uw item bounds have l': "list' = Suc (used s)" and u2: "used s2 = Suc (Suc (used s))"
          and c2: "cells s2 list' = cells s item @ rest"
          and r2: "cells s2 result = cells s result"
          and o2: "\<forall>a<used s. cells s2 a = cells s a"
          using at(3)
          by (auto simp: unwrap_def slice_def concat_js_def alloc_def)
        have f2: "\<forall>a<used orig. cells s2 a = cells orig a"
          using o2 frame bounds by simp
        have rep2: "list_all2 (represents orig) (drop 0 (cells s2 list')) (us @ r)"
          using us rr ci c2 by (simp add: list_all2_appendI)
        have "size_list size (us @ r) < size_list size ts" using Cons t by simp
        from less.hyps [OF this rep2 f2] bounds l' u2
        obtain s' where "flatten_loop s2 list' 0 result = Some (result, s')"
          and "cells s' result = cells s2 result @ map Atom (concat (map leaves (us @ r)))"
          and "\<forall>a<used orig. cells s' a = cells orig a"
          by auto
        with step r2 Cons t show ?thesis by simp
      qed
    qed
  qed
qed

text \<open>
  C4. For every finite nested sequence \<open>S\<close> (an array of the store that stands for
  \<open>Nested ts\<close>), \<open>flatten\<close> returns a new array that holds exactly the non-array leaves
  of \<open>S\<close> in left-to-right order, and it leaves \<open>S\<close> and every other array that existed
  unchanged. The two examples, \<^verbatim>\<open>[1, [2, [3, 4]], 5]\<close> and \<^verbatim>\<open>[[]]\<close>, are instances.
\<close>

theorem flatten_leaves_in_order:
  assumes "represents s (ArrayRef list) (Nested ts)"
  shows "\<exists>result s'. flatten s list = Some (result, s')
           \<and> cells s' result = map Atom (leaves (Nested ts))
           \<and> used s \<le> result
           \<and> (\<forall>a<used s. cells s' a = cells s a)"
proof -
  from assms have list: "list < used s" and rep: "list_all2 (represents s) (cells s list) ts"
    by simp_all
  define s0 where "s0 = snd (alloc ([] :: 'a val list) s)"
  have s0: "cells s0 = (cells s)(used s := [])" "used s0 = Suc (used s)"
    by (simp_all add: s0_def alloc_def)
  have run: "flatten s list = flatten_loop s0 list 0 (used s)"
    by (simp add: flatten_def s0_def alloc_def)
  have "list_all2 (represents s) (drop 0 (cells s0 list)) ts"
    using rep list by (simp add: s0)
  moreover have "\<forall>a<used s. cells s0 a = cells s a"
    by (simp add: s0)
  ultimately obtain s' where "flatten_loop s0 list 0 (used s) = Some (used s, s')"
    and "cells s' (used s) = cells s0 (used s) @ map Atom (concat (map leaves ts))"
    and "\<forall>a<used s. cells s' a = cells s a"
    using flatten_loop_run [where orig = s and s = s0 and list = list and i = 0 and ts = ts
        and result = "used s"] list by (auto simp: s0)
  then show ?thesis
    by (simp add: run s0)
qed

theorem flatten_leaves_in_order_witness:
  "represents nestedExample (ArrayRef 0)
      (Nested [Leaf 1, Nested [Leaf 2, Nested [Leaf 3, Leaf 4]], Leaf 5])
   \<and> (\<exists>result s'. flatten nestedExample 0 = Some (result, s')
         \<and> cells s' result = [Atom 1, Atom 2, Atom 3, Atom 4, Atom 5]
         \<and> 3 \<le> result
         \<and> cells s' 0 = [Atom 1, ArrayRef 1, Atom 5]
         \<and> cells s' 1 = [Atom 2, ArrayRef 2]
         \<and> cells s' 2 = [Atom 3, Atom 4])
   \<and> represents emptyExample (ArrayRef 0) (Nested [Nested []])
   \<and> (\<exists>result s'. flatten emptyExample 0 = Some (result, s')
         \<and> cells s' result = []
         \<and> cells s' 0 = [ArrayRef 1]
         \<and> cells s' 1 = [])"
proof -
  have r1: "represents nestedExample (ArrayRef 0)
      (Nested [Leaf 1, Nested [Leaf 2, Nested [Leaf 3, Leaf 4]], Leaf 5])"
    by (simp add: nestedExample_def)
  have r2: "represents emptyExample (ArrayRef 0) (Nested [Nested []])"
    by (simp add: emptyExample_def)
  from flatten_leaves_in_order [OF r1] obtain result s'
    where "flatten nestedExample 0 = Some (result, s')"
      and "cells s' result = map Atom (leaves (Nested [Leaf 1, Nested [Leaf 2, Nested [Leaf 3, Leaf 4]], Leaf 5]))"
      and "used nestedExample \<le> result"
      and "\<forall>a<used nestedExample. cells s' a = cells nestedExample a"
    by blast
  then have e1: "\<exists>result s'. flatten nestedExample 0 = Some (result, s')
         \<and> cells s' result = [Atom 1, Atom 2, Atom 3, Atom 4, Atom 5]
         \<and> 3 \<le> result
         \<and> cells s' 0 = [Atom 1, ArrayRef 1, Atom 5]
         \<and> cells s' 1 = [Atom 2, ArrayRef 2]
         \<and> cells s' 2 = [Atom 3, Atom 4]"
    by (simp add: nestedExample_def)
  from flatten_leaves_in_order [OF r2] obtain result s'
    where "flatten emptyExample 0 = Some (result, s')"
      and "cells s' result = map Atom (leaves (Nested [Nested []]))"
      and "\<forall>a<used emptyExample. cells s' a = cells emptyExample a"
    by blast
  then have e2: "\<exists>result s'. flatten emptyExample 0 = Some (result, s')
         \<and> cells s' result = []
         \<and> cells s' 0 = [ArrayRef 1]
         \<and> cells s' 1 = []"
    by (simp add: emptyExample_def)
  from r1 e1 r2 e2 show ?thesis by blast
qed

lemma wrappersList_append: "wrappersList (us @ r) = wrappersList us + wrappersList r"
  by (simp add: wrappersList_def)

lemma unwrap_fewer_wrappers:
  assumes "i < length (cells s list)" and "cells s list ! i = ArrayRef item"
    and "list_all2 (represents s) (drop i (cells s list)) ts"
  shows "\<exists>ts'. list_all2 (represents (snd (unwrap list i item s)))
                 (cells (snd (unwrap list i item s)) (fst (unwrap list i item s))) ts'
              \<and> wrappersList ts' < wrappersList ts"
proof -
  from assms(1,2) have dr: "drop i (cells s list) = ArrayRef item # drop (Suc i) (cells s list)"
    by (metis Cons_nth_drop_Suc)
  with assms(3) obtain t r where ts: "ts = t # r" and t: "represents s (ArrayRef item) t"
    and r: "list_all2 (represents s) (drop (Suc i) (cells s list)) r"
    by (auto simp: list_all2_Cons1)
  from t obtain us where us: "t = Nested us" "item < used s"
    "list_all2 (represents s) (cells s item) us"
    using represents_ArrayRef by blast
  let ?s2 = "snd (unwrap list i item s)" and ?l = "fst (unwrap list i item s)"
  have c2: "cells ?s2 ?l = cells s item @ drop (Suc i) (cells s list)"
    and f2: "\<forall>a<used s. cells ?s2 a = cells s a" and u2: "used s \<le> used ?s2"
    using us(2) by (auto simp: unwrap_def slice_def concat_js_def alloc_def)
  have "list_all2 (represents s) (cells ?s2 ?l) (us @ r)"
    using us(3) r c2 by (simp add: list_all2_appendI)
  then have "list_all2 (represents ?s2) (cells ?s2 ?l) (us @ r)"
  proof (rule list_all2_mono)
    fix v t assume "represents s v t"
    then show "represents ?s2 v t" by (rule represents_frame) (use f2 u2 in auto)
  qed
  moreover have "wrappersList (us @ r) < wrappersList ts"
    by (simp add: ts us(1) wrappersList_def)
  ultimately show ?thesis by blast
qed

text \<open>
  C10. For every finite, acyclic nested array, \<open>flatten\<close> returns; and each unwrapping
  of a non-empty nested array (the step that replaces the working list by
  \<^verbatim>\<open>item.concat(list.slice(i + 1))\<close>) leaves strictly fewer array wrappers in the
  unprocessed part of the working list than there were before.
\<close>

theorem flatten_terminates:
  "(represents s (ArrayRef list) t \<longrightarrow> (\<exists>result s'. flatten s list = Some (result, s')))
   \<and> (i < length (cells s list) \<and> cells s list ! i = ArrayRef item \<and> cells s item \<noteq> []
        \<and> list_all2 (represents s) (drop i (cells s list)) ts
      \<longrightarrow> (\<exists>ts'. list_all2 (represents (snd (unwrap list i item s)))
                    (cells (snd (unwrap list i item s)) (fst (unwrap list i item s))) ts'
                 \<and> wrappersList ts' < wrappersList ts))"
proof (intro conjI impI)
  assume rep: "represents s (ArrayRef list) t"
  then obtain ts0 where t: "t = Nested ts0" and list: "list < used s"
    and all: "list_all2 (represents s) (cells s list) ts0"
    using represents_ArrayRef by blast
  define s0 where "s0 = snd (alloc ([] :: 'a val list) s)"
  have s0: "cells s0 = (cells s)(used s := [])" "used s0 = Suc (used s)"
    by (simp_all add: s0_def alloc_def)
  have run: "flatten s list = flatten_loop s0 list 0 (used s)"
    by (simp add: flatten_def s0_def alloc_def)
  have "list_all2 (represents s) (drop 0 (cells s0 list)) ts0"
    using all list by (simp add: s0)
  moreover have "\<forall>a<used s. cells s0 a = cells s a"
    by (simp add: s0)
  ultimately obtain s' where "flatten_loop s0 list 0 (used s) = Some (used s, s')"
    using flatten_loop_run [where orig = s and s = s0 and list = list and i = 0 and ts = ts0
        and result = "used s"] list by (auto simp: s0)
  then show "\<exists>result s'. flatten s list = Some (result, s')"
    by (simp add: run)
next
  assume "i < length (cells s list) \<and> cells s list ! i = ArrayRef item \<and> cells s item \<noteq> []
        \<and> list_all2 (represents s) (drop i (cells s list)) ts"
  then show "\<exists>ts'. list_all2 (represents (snd (unwrap list i item s)))
                    (cells (snd (unwrap list i item s)) (fst (unwrap list i item s))) ts'
                 \<and> wrappersList ts' < wrappersList ts"
    using unwrap_fewer_wrappers [of i s list item ts] by blast
qed

theorem flatten_terminates_witness:
  "represents nestedExample (ArrayRef 0)
      (Nested [Leaf 1, Nested [Leaf 2, Nested [Leaf 3, Leaf 4]], Leaf 5])
   \<and> (\<exists>result s'. flatten nestedExample 0 = Some (result, s'))
   \<and> cells nestedExample 0 ! 1 = ArrayRef 1
   \<and> cells nestedExample 1 \<noteq> []
   \<and> wrappersList [Nested [Leaf 2, Nested [Leaf 3, Leaf 4]], Leaf (5::int)] = 2
   \<and> (\<exists>ts'. list_all2 (represents (snd (unwrap 0 1 1 nestedExample)))
                 (cells (snd (unwrap 0 1 1 nestedExample)) (fst (unwrap 0 1 1 nestedExample))) ts'
              \<and> wrappersList ts' < 2)"
proof -
  note claim = flatten_terminates [of nestedExample 0
      "Nested [Leaf 1, Nested [Leaf 2, Nested [Leaf 3, Leaf 4]], Leaf 5]" 1 1
      "[Nested [Leaf 2, Nested [Leaf 3, Leaf 4]], Leaf 5]"]
  have r: "represents nestedExample (ArrayRef 0)
      (Nested [Leaf 1, Nested [Leaf 2, Nested [Leaf 3, Leaf 4]], Leaf 5])"
    by (simp add: nestedExample_def)
  have pre: "1 < length (cells nestedExample 0) \<and> cells nestedExample 0 ! 1 = ArrayRef 1
      \<and> cells nestedExample 1 \<noteq> []
      \<and> list_all2 (represents nestedExample) (drop 1 (cells nestedExample 0))
           [Nested [Leaf 2, Nested [Leaf 3, Leaf 4]], Leaf 5]"
    by (simp add: nestedExample_def)
  have w: "wrappersList [Nested [Leaf 2, Nested [Leaf 3, Leaf 4]], Leaf (5::int)] = 2"
    by (simp add: wrappersList_def)
  from claim r have "\<exists>result s'. flatten nestedExample 0 = Some (result, s')"
    by blast
  moreover from claim pre w
  have "\<exists>ts'. list_all2 (represents (snd (unwrap 0 1 1 nestedExample)))
                 (cells (snd (unwrap 0 1 1 nestedExample)) (fst (unwrap 0 1 1 nestedExample))) ts'
              \<and> wrappersList ts' < 2"
    by simp
  ultimately show ?thesis using r pre w by blast
qed

end
